theory Spec2Isabelle
  imports Main
begin

section \<open>Configuration constants of \<^verbatim>\<open>ocr_reader.py\<close>\<close>

definition OCR_EVERY :: nat where "OCR_EVERY = 5"
definition HISTORY :: nat where "HISTORY = 15"
definition REQUIRED :: nat where "REQUIRED = 4"
definition PLATE_MIN :: nat where "PLATE_MIN = 5"
definition PLATE_MAX :: nat where "PLATE_MAX = 8"

section \<open>Temporal consensus: the bounded window and the vote\<close>

text \<open>
  A recognition sample is a Python \<^verbatim>\<open>str\<close>. The consensus code only compares samples
  and takes their length, so it is modelled for samples \<open>'c list\<close> over any character
  type \<open>'c\<close>; the empty list is Python's \<^verbatim>\<open>""\<close>.

  \<^verbatim>\<open>hist = deque(maxlen=HISTORY)\<close> is the list of its elements, oldest first.
  \<^verbatim>\<open>deque.append\<close> on a bounded deque adds the element on the right and then, when
  the deque is longer than \<^verbatim>\<open>maxlen\<close>, removes the leftmost element.
\<close>

definition deque_append :: "nat \<Rightarrow> 'a list \<Rightarrow> 'a \<Rightarrow> 'a list" where
  "deque_append maxlen d x =
     (let d' = d @ [x] in if length d' > maxlen then tl d' else d')"

text \<open>
  Lines 202--203 of \<^verbatim>\<open>main\<close>:
  \<^verbatim>\<open>if PLATE_MIN <= len(plate) <= PLATE_MAX: hist.append(plate)\<close>.
\<close>

definition offer :: "'c list list \<Rightarrow> 'c list \<Rightarrow> 'c list list" where
  "offer hist plate =
     (if PLATE_MIN \<le> length plate \<and> length plate \<le> PLATE_MAX
      then deque_append HISTORY hist plate
      else hist)"

text \<open>
  \<^verbatim>\<open>Counter(hist)\<close> is a dict from element to count that keeps the order in which the
  keys were first inserted: an association list. Counting an element increments the
  count of its key in place, or adds the key with count 1 at the end.
\<close>

type_synonym 'k counter = "('k \<times> nat) list"

fun counter_incr :: "'k \<Rightarrow> 'k counter \<Rightarrow> 'k counter" where
  "counter_incr k [] = [(k, 1)]"
| "counter_incr k ((k', n) # kvs) =
     (if k = k' then (k', n + 1) # kvs else (k', n) # counter_incr k kvs)"

definition Counter :: "'k list \<Rightarrow> 'k counter" where
  "Counter xs = foldl (\<lambda>c x. counter_incr x c) [] xs"

text \<open>
  \<^verbatim>\<open>most_common(1)\<close> is \<^verbatim>\<open>max(items, key=count)\<close>, a list of one pair, or the empty
  list for an empty counter. Python's \<^verbatim>\<open>max\<close> keeps the first of several maximal
  items: a later item replaces the current best only when its count is strictly larger.
\<close>

fun max_by_count :: "'k \<times> nat \<Rightarrow> 'k counter \<Rightarrow> 'k \<times> nat" where
  "max_by_count b [] = b"
| "max_by_count b (kv # kvs) = max_by_count (if snd kv > snd b then kv else b) kvs"

definition most_common1 :: "'k counter \<Rightarrow> ('k \<times> nat) list" where
  "most_common1 c = (case c of [] \<Rightarrow> [] | kv # kvs \<Rightarrow> [max_by_count kv kvs])"

datatype py_error =
    IndexError
  | ValueError
  | FileNotFoundError
  | ProcessLookupError
  | PermissionError
  | OverflowError
  | KeyboardInterrupt
  | CvError

text \<open>
  Lines 207--211 of \<^verbatim>\<open>main\<close>. The result \<^verbatim>\<open>stable\<close> is the empty string when no
  value is accepted (the spec's Absent). \<^verbatim>\<open>most_common(1)[0]\<close> raises
  \<^verbatim>\<open>IndexError\<close> on an empty list, which the model keeps as a branch.
\<close>

definition stable :: "'c list list \<Rightarrow> py_error + 'c list" where
  "stable hist =
     (if hist \<noteq> [] then
        (case most_common1 (Counter hist) of
           [] \<Rightarrow> Inl IndexError
         | (best, cnt) # _ \<Rightarrow> Inr (if cnt \<ge> REQUIRED then best else []))
      else Inr [])"

text \<open>A sequence of offers, starting from the window as it is.\<close>

definition offers :: "'c list list \<Rightarrow> 'c list list \<Rightarrow> 'c list list" where
  "offers hist plates = foldl offer hist plates"

text \<open>The acceptance test of line 202 as a predicate on a sample.\<close>

definition plate_sized :: "'c list \<Rightarrow> bool" where
  "plate_sized x \<longleftrightarrow> PLATE_MIN \<le> length x \<and> length x \<le> PLATE_MAX"

section \<open>Text normalisation and candidate selection (\<^verbatim>\<open>ocr_reader.py\<close>)\<close>

text \<open>
  The text handed to \<^verbatim>\<open>normalize_plate\<close> is a Python \<^verbatim>\<open>str\<close>, a sequence of
  Unicode code points; a code point is a natural number. \<open>ustr\<close> reads an ASCII
  literal as such a sequence.
\<close>

type_synonym ustring = "nat list"

definition ustr :: "string \<Rightarrow> ustring" where
  "ustr s = map of_char s"

text \<open>
  \<^verbatim>\<open>str.upper\<close> maps each code point on its own. On ASCII it turns \<^verbatim>\<open>a\<close>..\<^verbatim>\<open>z\<close> into
  \<^verbatim>\<open>A\<close>..\<^verbatim>\<open>Z\<close> and changes nothing else. Beyond ASCII it follows the Unicode case
  tables, which are not part of the repository and may give several code points for one
  (\<^verbatim>\<open>U+00DF\<close> becomes \<^verbatim>\<open>SS\<close>): that part is the parameter \<open>upper_nonascii\<close>.
\<close>

definition py_upper :: "(nat \<Rightarrow> ustring) \<Rightarrow> ustring \<Rightarrow> ustring" where
  "py_upper upper_nonascii s =
     concat (map (\<lambda>c. if c < 128 then [if 97 \<le> c \<and> c \<le> 122 then c - 32 else c]
                       else upper_nonascii c) s)"

text \<open>The code points that \<^verbatim>\<open>str.strip()\<close> removes (\<^verbatim>\<open>str.isspace\<close>).\<close>

definition py_isspace :: "nat \<Rightarrow> bool" where
  "py_isspace c \<longleftrightarrow>
     (9 \<le> c \<and> c \<le> 13) \<or> (28 \<le> c \<and> c \<le> 32) \<or> c = 133 \<or> c = 160 \<or> c = 5760 \<or>
     (8192 \<le> c \<and> c \<le> 8202) \<or> c = 8232 \<or> c = 8233 \<or> c = 8239 \<or> c = 8287 \<or> c = 12288"

definition py_strip :: "ustring \<Rightarrow> ustring" where
  "py_strip s = rev (dropWhile py_isspace (rev (dropWhile py_isspace s)))"

text \<open>\<^verbatim>\<open>s.replace(old, new)\<close> for a one-character \<^verbatim>\<open>old\<close>.\<close>

definition py_replace1 :: "nat \<Rightarrow> ustring \<Rightarrow> ustring \<Rightarrow> ustring" where
  "py_replace1 old new s = concat (map (\<lambda>c. if c = old then new else [c]) s)"

definition allowed :: ustring where
  "allowed = ustr ''ABCDEFGHIJKLMNOPQRSTUVWXYZ0123456789''"

definition normalize_plate :: "(nat \<Rightarrow> ustring) \<Rightarrow> ustring \<Rightarrow> ustring" where
  "normalize_plate upper_nonascii s =
     (let s1 = py_replace1 (of_char CHR '' '') [] (py_strip (py_upper upper_nonascii s));
          s2 = py_replace1 (of_char CHR ''|'') (ustr ''1'')
                 (py_replace1 (of_char CHR ''O'') (ustr ''0'') s1)
      in filter (\<lambda>ch. ch \<in> set allowed) s2)"

text \<open>
  The normalisation as the specification words it: uppercase, remove whitespace,
  substitute \<^verbatim>\<open>O\<close> by \<^verbatim>\<open>0\<close> and \<^verbatim>\<open>|\<close> by \<^verbatim>\<open>1\<close> leaving other characters unchanged,
  and drop every character outside \<^verbatim>\<open>A\<close>--\<^verbatim>\<open>Z\<close> and \<^verbatim>\<open>0\<close>--\<^verbatim>\<open>9\<close>.
\<close>

definition substitute :: "nat \<Rightarrow> nat" where
  "substitute c =
     (if c = of_char CHR ''O'' then of_char CHR ''0''
      else if c = of_char CHR ''|'' then of_char CHR ''1'' else c)"

definition in_alphabet :: "nat \<Rightarrow> bool" where
  "in_alphabet c \<longleftrightarrow>
     (of_char CHR ''A'' \<le> c \<and> c \<le> of_char CHR ''Z'') \<or>
     (of_char CHR ''0'' \<le> c \<and> c \<le> of_char CHR ''9'')"

definition normalize_spec :: "(nat \<Rightarrow> ustring) \<Rightarrow> ustring \<Rightarrow> ustring" where
  "normalize_spec upper_nonascii s =
     filter in_alphabet
       (map substitute (filter (\<lambda>c. \<not> py_isspace c) (py_upper upper_nonascii s)))"

text \<open>
  \<^verbatim>\<open>ocr_best\<close>: the image operations and the two calls of the OCR engine are outside
  the repository; their results \<^verbatim>\<open>txt_a\<close> and \<^verbatim>\<open>txt_b\<close> are the inputs here.
\<close>

definition ocr_best :: "(nat \<Rightarrow> ustring) \<Rightarrow> ustring \<Rightarrow> ustring \<Rightarrow> ustring" where
  "ocr_best upper_nonascii txt_a txt_b =
     (let norm_a = normalize_plate upper_nonascii txt_a;
          norm_b = normalize_plate upper_nonascii txt_b
      in if length norm_a \<ge> length norm_b then norm_a else norm_b)"

section \<open>The operating system as seen by the stream supervisor\<close>

text \<open>
  The supervisor touches the file system (the pid file), the process table (the
  \<^verbatim>\<open>rpicam-vid\<close> child and its process group) and standard output. The state below
  holds these, together with the facts of the environment that decide how the system
  calls end: whether the streamer executable can be launched, which pid the kernel
  hands out next, whether a process outlives \<^verbatim>\<open>SIGTERM\<close>. What is printed, every
  process launched, every signal sent and every sleep is appended to \<open>trace\<close>, in order.

  \<open>files\<close> maps the path of a regular file to the bytes that reading it yields;
  \<open>unwritable\<close> holds of the paths that the caller may neither create nor remove (the
  directory does not permit it). \<open>procs\<close> are the processes that the caller may signal,
  \<open>others\<close> the processes of other users, which it may not signal, as pairs of pid
  and process group. The caller itself is in neither table, only its process group is
  recorded.
\<close>

datatype signal = SIGTERM | SIGKILL

record process =
  pgid :: nat
  term_resistant :: bool

datatype event =
    Print string
  | Popen "string list" nat
  | Kill int signal
  | Killpg nat signal
  | Sleep nat

record os_state =
  files :: "string \<rightharpoonup> string"
  unwritable :: "string \<Rightarrow> bool"
  procs :: "(nat \<times> process) list"
  others :: "(nat \<times> nat) list"
  own_pgid :: nat
  next_pid :: nat
  exe_present :: bool
  child_term_resistant :: bool
  trace :: "event list"

text \<open>
  A call either returns, with the new state (\<open>Inr\<close>), or fails, with the state
  reached so far (\<open>Inl\<close>). A failure is a Python exception or \<open>KilledBySignal\<close>: the
  interpreter itself terminated by a signal that it sent to its own process group.
\<close>

datatype failure = Py py_error | KilledBySignal signal

type_synonym outcome = "failure \<times> os_state + os_state"

definition log :: "event \<Rightarrow> os_state \<Rightarrow> os_state" where
  "log e s = s\<lparr>trace := trace s @ [e]\<rparr>"

definition print :: "string \<Rightarrow> os_state \<Rightarrow> os_state" where
  "print msg s = log (Print msg) s"

text \<open>\<^verbatim>\<open>time.sleep(seconds)\<close>, with the duration in milliseconds.\<close>

definition sleep :: "nat \<Rightarrow> os_state \<Rightarrow> os_state" where
  "sleep ms s = log (Sleep ms) s"

text \<open>\<^verbatim>\<open>str(n)\<close> for a non-negative integer: its decimal digits.\<close>

fun str_nat :: "nat \<Rightarrow> string" where
  "str_nat n =
     (if n < 10 then [''0123456789'' ! n]
      else str_nat (n div 10) @ [''0123456789'' ! (n mod 10)])"

declare str_nat.simps [simp del]

subsection \<open>Signals\<close>

text \<open>
  A delivered \<^verbatim>\<open>SIGKILL\<close> removes a process; a delivered \<^verbatim>\<open>SIGTERM\<close> removes it
  unless it is \<open>term_resistant\<close>.
\<close>

definition dies :: "signal \<Rightarrow> process \<Rightarrow> bool" where
  "dies sig pr \<longleftrightarrow> sig = SIGKILL \<or> \<not> term_resistant pr"

definition deliver :: "(nat \<times> process \<Rightarrow> bool) \<Rightarrow> signal \<Rightarrow> os_state \<Rightarrow> os_state" where
  "deliver target sig s =
     s\<lparr>procs := filter (\<lambda>p. \<not> (target p \<and> dies sig (snd p))) (procs s)\<rparr>"

definition running :: "nat \<Rightarrow> os_state \<Rightarrow> bool" where
  "running pid s \<longleftrightarrow> pid \<in> fst ` set (procs s)"

text \<open>
  The signal goes to every process of group \<open>g\<close> that the caller may signal. When
  \<open>g\<close> is the caller's own group the caller is terminated as well. When the group has
  members but none that the caller may signal, the call fails with \<^verbatim>\<open>EPERM\<close>, Python's
  \<^verbatim>\<open>PermissionError\<close>; with no process in the group it fails with \<^verbatim>\<open>ESRCH\<close>,
  Python's \<^verbatim>\<open>ProcessLookupError\<close>.
\<close>

definition signal_group :: "nat \<Rightarrow> signal \<Rightarrow> os_state \<Rightarrow> outcome" where
  "signal_group g sig s =
     (if g = own_pgid s then Inl (KilledBySignal sig, deliver (\<lambda>p. pgid (snd p) = g) sig s)
      else if list_ex (\<lambda>p. pgid (snd p) = g) (procs s)
      then Inr (deliver (\<lambda>p. pgid (snd p) = g) sig s)
      else if list_ex (\<lambda>p. snd p = g) (others s) then Inl (Py PermissionError, s)
      else Inl (Py ProcessLookupError, s))"

text \<open>The range of a C \<^verbatim>\<open>int\<close>, which is that of \<^verbatim>\<open>pid_t\<close>.\<close>

definition INT_MIN :: int where "INT_MIN = - 2147483648"
definition INT_MAX :: int where "INT_MAX = 2147483647"

text \<open>
  \<^verbatim>\<open>os.kill(pid, sig)\<close>. Python converts \<open>pid\<close> to a C \<^verbatim>\<open>int\<close> first and raises
  \<^verbatim>\<open>OverflowError\<close>, without a system call, when it does not fit. Then \<^verbatim>\<open>kill(2)\<close>
  is called and entered in the trace: a positive \<open>pid\<close> names one process, \<open>0\<close> the
  caller's process group, \<open>-1\<close> every process the caller may signal (on Linux not the
  caller itself; processes it may not signal are passed over), and \<open>-g\<close> the process
  group \<open>g\<close>. A single process that exists but belongs to another user gives
  \<^verbatim>\<open>EPERM\<close> (\<^verbatim>\<open>PermissionError\<close>), a pid that no process has gives \<^verbatim>\<open>ESRCH\<close>
  (\<^verbatim>\<open>ProcessLookupError\<close>).
\<close>

definition os_kill :: "int \<Rightarrow> signal \<Rightarrow> os_state \<Rightarrow> outcome" where
  "os_kill pid sig s =
     (if pid < INT_MIN \<or> INT_MAX < pid then Inl (Py OverflowError, s)
      else let s' = log (Kill pid sig) s in
      if pid > 0 then
        (if running (nat pid) s then Inr (deliver (\<lambda>p. fst p = nat pid) sig s')
         else if nat pid \<in> fst ` set (others s) then Inl (Py PermissionError, s')
         else Inl (Py ProcessLookupError, s'))
      else if pid = 0 then signal_group (own_pgid s) sig s'
      else if pid = - 1 then
        (if procs s = [] \<and> others s = [] then Inl (Py ProcessLookupError, s')
         else Inr (deliver (\<lambda>p. True) sig s'))
      else signal_group (nat (- pid)) sig s')"

text \<open>\<^verbatim>\<open>os.killpg(pgid, sig)\<close>; group \<open>0\<close> is the caller's own group.\<close>

definition os_killpg :: "nat \<Rightarrow> signal \<Rightarrow> os_state \<Rightarrow> outcome" where
  "os_killpg g sig s =
     signal_group (if g = 0 then own_pgid s else g) sig (log (Killpg g sig) s)"

text \<open>
  \<^verbatim>\<open>os.getpgid(pid)\<close>, for the pid of a \<^verbatim>\<open>Popen\<close> handle; pid \<open>0\<close> is the caller.
  The group of a process of another user can be read as well.
\<close>

definition os_getpgid :: "nat \<Rightarrow> os_state \<Rightarrow> failure + nat" where
  "os_getpgid pid s =
     (if pid = 0 then Inr (own_pgid s)
      else case map_of (procs s) pid of
             Some pr \<Rightarrow> Inr (pgid pr)
           | None \<Rightarrow>
               (case map_of (others s) pid of
                  Some g \<Rightarrow> Inr g
                | None \<Rightarrow> Inl (Py ProcessLookupError)))"

subsection \<open>Processes and files\<close>

text \<open>
  \<^verbatim>\<open>subprocess.Popen(cmd, start_new_session=True)\<close> and
  \<^verbatim>\<open>subprocess.Popen(cmd, ..., preexec_fn=os.setsid)\<close>: the child runs \<^verbatim>\<open>setsid\<close>, so
  it leads a new process group whose id is its own pid. A missing executable raises
  \<^verbatim>\<open>FileNotFoundError\<close> and starts nothing.
\<close>

definition popen :: "string list \<Rightarrow> os_state \<Rightarrow> failure \<times> os_state + nat \<times> os_state" where
  "popen cmd s =
     (if \<not> exe_present s then Inl (Py FileNotFoundError, s)
      else let pid = next_pid s in
        Inr (pid, log (Popen cmd pid)
          (s\<lparr>procs := (pid, \<lparr>pgid = pid, term_resistant = child_term_resistant s\<rparr>) # procs s,
             next_pid := pid + 1\<rparr>)))"

definition os_path_exists :: "string \<Rightarrow> os_state \<Rightarrow> bool" where
  "os_path_exists path s \<longleftrightarrow> files s path \<noteq> None"

text \<open>
  \<^verbatim>\<open>with open(path, "w") as f: f.write(text)\<close> and \<^verbatim>\<open>os.remove(path)\<close>. Both raise
  \<^verbatim>\<open>PermissionError\<close> on a path that the caller may not create or remove.
\<close>

definition write_file :: "string \<Rightarrow> string \<Rightarrow> os_state \<Rightarrow> outcome" where
  "write_file path text s =
     (if unwritable s path then Inl (Py PermissionError, s)
      else Inr (s\<lparr>files := (files s)(path \<mapsto> text)\<rparr>))"

definition os_remove :: "string \<Rightarrow> os_state \<Rightarrow> outcome" where
  "os_remove path s =
     (if files s path = None then Inl (Py FileNotFoundError, s)
      else if unwritable s path then Inl (Py PermissionError, s)
      else Inr (s\<lparr>files := (files s)(path := None)\<rparr>))"

section \<open>The stream supervisor (\<^verbatim>\<open>stream_control.py\<close>)\<close>

definition DEFAULT_URL :: string where "DEFAULT_URL = ''tcp://127.0.0.1:5800?listen''"
definition DEFAULT_W :: string where "DEFAULT_W = ''1920''"
definition DEFAULT_H :: string where "DEFAULT_H = ''1080''"
definition DEFAULT_FPS :: string where "DEFAULT_FPS = ''15''"
definition DEFAULT_QUALITY :: string where "DEFAULT_QUALITY = ''90''"
definition DEFAULT_PID :: string where "DEFAULT_PID = ''stream.pid''"

definition start_stream ::
  "string \<Rightarrow> string \<Rightarrow> string \<Rightarrow> string \<Rightarrow> string \<Rightarrow> string \<Rightarrow> os_state \<Rightarrow> outcome" where
  "start_stream url width height fps quality pid_file s =
     (if os_path_exists pid_file s then
        Inr (print ''Stream already running (pid file exists).'' s)
      else
        let cmd = [''rpicam-vid'', ''-t'', ''0'', ''-n'', ''--codec'', ''mjpeg'',
                   ''--quality'', quality, ''--width'', width, ''--height'', height,
                   ''--framerate'', fps, ''-o'', url]
        in case popen cmd s of
             Inl err \<Rightarrow> Inl err
           | Inr (pid, s1) \<Rightarrow>
               (case write_file pid_file (str_nat pid) s1 of
                  Inl err \<Rightarrow> Inl err
                | Inr s2 \<Rightarrow>
                    Inr (print (''Started stream (PID '' @ str_nat pid @ '') -> '' @ url) s2)))"

text \<open>
  \<^verbatim>\<open>stop_stream\<close> of \<^verbatim>\<open>stream_control.py\<close>. The pid file exists when the file
  system has an entry for its path. The parameter \<open>py_int\<close> stands for
  \<^verbatim>\<open>int(f.read().strip())\<close> on the bytes of the pid file: Python's text decoding
  and integer syntax are not part of the repository. A \<^verbatim>\<open>ValueError\<close> there is not
  caught; of the failures of \<^verbatim>\<open>os.kill\<close> only \<^verbatim>\<open>ProcessLookupError\<close> is caught
  (\<^verbatim>\<open>OverflowError\<close> and \<^verbatim>\<open>PermissionError\<close> are not), of those of \<^verbatim>\<open>os.remove\<close>
  only \<^verbatim>\<open>FileNotFoundError\<close>.
\<close>

definition stop_stream :: "(string \<Rightarrow> py_error + int) \<Rightarrow> string \<Rightarrow> os_state \<Rightarrow> outcome" where
  "stop_stream py_int pid_file s =
     (case files s pid_file of
        None \<Rightarrow> Inr (print ''No stream running (pid file missing).'' s)
      | Some text \<Rightarrow>
      (case py_int text of
        Inl e \<Rightarrow> Inl (Py e, s)
      | Inr pid \<Rightarrow>
          (case (case os_kill pid SIGTERM s of
                   Inr s1 \<Rightarrow> Inr (print ''Stopped stream.'' s1)
                 | Inl (err, s1) \<Rightarrow>
                     if err = Py ProcessLookupError
                     then Inr (print ''Process not found; cleaning pid file.'' s1)
                     else Inl (err, s1)) of
             Inl err \<Rightarrow> Inl err
           | Inr s2 \<Rightarrow>
               (case os_remove pid_file s2 of
                  Inr s3 \<Rightarrow> Inr s3
                | Inl (err, s3) \<Rightarrow>
                    if err = Py FileNotFoundError then Inr s3 else Inl (err, s3)))))"

text \<open>
  A reading of \<^verbatim>\<open>int(...)\<close> on pid files for the examples: a non-empty string of
  ASCII digits is its decimal value, as in Python and as \<^verbatim>\<open>start_stream\<close> writes it;
  any other content is rejected.
\<close>

definition decimal_int :: "string \<Rightarrow> py_error + int" where
  "decimal_int t =
     (if t \<noteq> [] \<and> list_all (\<lambda>c. c \<in> set ''0123456789'') t
      then Inr (foldl (\<lambda>a c. 10 * a + (of_char c - 48)) 0 t)
      else Inl ValueError)"

section \<open>The stand-alone preview script (\<^verbatim>\<open>video_stream.py\<close>)\<close>

text \<open>
  \<^verbatim>\<open>stop_stream(proc)\<close> of \<^verbatim>\<open>video_stream.py\<close> works on the \<^verbatim>\<open>Popen\<close> handle of the
  child, not on a pid file. The handle is the child's pid, or \<open>None\<close> for Python's
  \<^verbatim>\<open>None\<close>; \<^verbatim>\<open>proc.poll() is None\<close> holds while the child is running. The body of the
  \<^verbatim>\<open>try\<close> is \<open>stop_group\<close>; \<^verbatim>\<open>except Exception\<close> turns every Python exception
  except \<^verbatim>\<open>KeyboardInterrupt\<close> into a printed warning (the text of the exception, which
  the script appends to the warning, is left out).
\<close>

definition stop_group :: "nat \<Rightarrow> os_state \<Rightarrow> outcome" where
  "stop_group pid s =
     (case os_getpgid pid s of
        Inl e \<Rightarrow> Inl (e, s)
      | Inr g \<Rightarrow>
          (case os_killpg g SIGTERM s of
             Inl err \<Rightarrow> Inl err
           | Inr s1 \<Rightarrow>
               let s2 = sleep 300 s1 in
               if running pid s2 then
                 (case os_getpgid pid s2 of
                    Inl e \<Rightarrow> Inl (e, s2)
                  | Inr g' \<Rightarrow> os_killpg g' SIGKILL s2)
               else Inr s2))"

definition video_stream_stop_stream :: "nat option \<Rightarrow> os_state \<Rightarrow> outcome" where
  "video_stream_stop_stream proc s =
     (case proc of
        None \<Rightarrow> Inr s
      | Some pid \<Rightarrow>
          if running pid s then
            (case stop_group pid s of
               Inr s' \<Rightarrow> Inr s'
             | Inl (err, s') \<Rightarrow>
                 (case err of
                    Py e \<Rightarrow>
                      if e = KeyboardInterrupt then Inl (err, s')
                      else Inr (print ''Warning: failed to stop rpicam-vid cleanly'' s')
                  | KilledBySignal sig \<Rightarrow> Inl (err, s')))
          else Inr s)"

text \<open>
  The stop of the specification, in its words: when the lock file exists, read the
  process id, send a graceful termination signal to the whole process group of that
  process, wait a grace period of 300 ms, escalate to a forceful kill if the process is
  still alive, and remove the lock file afterwards, also when the process was not found.
\<close>

definition stop_spec :: "(string \<Rightarrow> py_error + int) \<Rightarrow> string \<Rightarrow> os_state \<Rightarrow> outcome" where
  "stop_spec py_int pid_file s =
     (case files s pid_file of
        None \<Rightarrow> Inr (print ''No stream running (pid file missing).'' s)
      | Some text \<Rightarrow>
      (case py_int text of
        Inl e \<Rightarrow> Inl (Py e, s)
      | Inr pid \<Rightarrow>
          (case (case stop_group (nat pid) s of
                   Inr s1 \<Rightarrow> Inr (print ''Stopped stream.'' s1)
                 | Inl (err, s1) \<Rightarrow>
                     if err = Py ProcessLookupError
                     then Inr (print ''Process not found; cleaning pid file.'' s1)
                     else Inl (err, s1)) of
             Inl err \<Rightarrow> Inl err
           | Inr s2 \<Rightarrow>
               (case os_remove pid_file s2 of
                  Inr s3 \<Rightarrow> Inr s3
                | Inl (err, s3) \<Rightarrow>
                    if err = Py FileNotFoundError then Inr s3 else Inl (err, s3)))))"

subsection \<open>Example states\<close>

text \<open>
  \<open>os_idle\<close>: no pid file, no streamer. \<open>os_streaming\<close>: the pid file names process
  4242, which leads process group 4242 and outlives \<^verbatim>\<open>SIGTERM\<close>; process 4243 is a
  second member of that group. \<open>os_stale\<close>: the pid file names process 4242, which no
  longer exists.
\<close>

definition os_idle :: os_state where
  "os_idle = \<lparr>files = Map.empty, unwritable = (\<lambda>path. False), procs = [], others = [],
     own_pgid = 1000, next_pid = 4242,
     exe_present = True, child_term_resistant = True, trace = []\<rparr>"

text \<open>\<open>os_started\<close>: the state that a start with the default settings makes of \<open>os_idle\<close>.\<close>

definition os_started :: os_state where
  "os_started = \<lparr>files = [''stream.pid'' \<mapsto> ''4242''], unwritable = (\<lambda>path. False),
     procs = [(4242, \<lparr>pgid = 4242, term_resistant = True\<rparr>)], others = [],
     own_pgid = 1000, next_pid = 4243,
     exe_present = True, child_term_resistant = True,
     trace = [Popen [''rpicam-vid'', ''-t'', ''0'', ''-n'', ''--codec'', ''mjpeg'',
                ''--quality'', ''90'', ''--width'', ''1920'', ''--height'', ''1080'',
                ''--framerate'', ''15'', ''-o'', ''tcp://127.0.0.1:5800?listen''] 4242,
              Print ''Started stream (PID 4242) -> tcp://127.0.0.1:5800?listen'']\<rparr>"

definition os_streaming :: os_state where
  "os_streaming = \<lparr>files = [''stream.pid'' \<mapsto> ''4242''], unwritable = (\<lambda>path. False),
     procs = [(4242, \<lparr>pgid = 4242, term_resistant = True\<rparr>),
              (4243, \<lparr>pgid = 4242, term_resistant = False\<rparr>)],
     others = [], own_pgid = 1000, next_pid = 4244,
     exe_present = True, child_term_resistant = True, trace = []\<rparr>"





section \<open>The orchestration loop (\<^verbatim>\<open>main\<close> of \<^verbatim>\<open>ocr_reader.py\<close>)\<close>

text \<open>
  \<^verbatim>\<open>main\<close> is driven by what the calls into OpenCV, the OCR engine and the clock
  answer. Such a call returns a value or raises; \<^verbatim>\<open>KeyboardInterrupt\<close> is what a
  \<^verbatim>\<open>SIGINT\<close> arriving during the call raises.
\<close>

datatype 'a call = Returns 'a | Raises py_error

text \<open>
  One pass through the body of \<^verbatim>\<open>while True\<close>: \<^verbatim>\<open>cap.read()\<close> gives no frame; or it
  gives a frame, for which the OCR engine would read the two texts given (they are used
  on every \<open>OCR_EVERY\<close>-th frame only) and \<^verbatim>\<open>cv2.waitKey(1)\<close> returns the key given;
  or some call of the body raises.
\<close>

datatype iteration =
    NoFrame
  | Frame ustring ustring int
  | Fault py_error

record loop_state =
  st_hist :: "ustring list"
  st_frame_id :: nat
  st_shown :: "ustring list"
  st_saved :: nat

text \<open>
  Lines 188--213: count the frame, run the OCR on every \<open>OCR_EVERY\<close>-th frame and
  offer its candidate, vote, and draw the label \<^verbatim>\<open>stable or "(reading...)"\<close>.
\<close>

definition frame_step ::
  "(nat \<Rightarrow> ustring) \<Rightarrow> loop_state \<Rightarrow> ustring \<Rightarrow> ustring \<Rightarrow> py_error + loop_state" where
  "frame_step upper_nonascii st txt_a txt_b =
     (let fid = st_frame_id st + 1;
          h = (if fid mod OCR_EVERY = 0
               then offer (st_hist st) (ocr_best upper_nonascii txt_a txt_b)
               else st_hist st)
      in case stable h of
           Inl e \<Rightarrow> Inl e
         | Inr voted \<Rightarrow>
             Inr (st\<lparr>st_hist := h, st_frame_id := fid,
                     st_shown := st_shown st @ [if voted \<noteq> [] then voted else ustr ''(reading...)'']\<rparr>))"

datatype loop_end = Quit | Crashed py_error | Unfinished

text \<open>
  The loop over the passes the environment provides. It has no exit of its own but the
  key \<^verbatim>\<open>q\<close> (code 113) and an exception; a pass without a frame sleeps and continues.
  When the passes provided are used up the loop is still running.
\<close>

fun capture_loop ::
  "(nat \<Rightarrow> ustring) \<Rightarrow> loop_state \<Rightarrow> iteration list \<Rightarrow> loop_end \<times> loop_state" where
  "capture_loop U st [] = (Unfinished, st)"
| "capture_loop U st (NoFrame # its) = capture_loop U st its"
| "capture_loop U st (Fault e # its) = (Crashed e, st)"
| "capture_loop U st (Frame txt_a txt_b key # its) =
     (case frame_step U st txt_a txt_b of
        Inl e \<Rightarrow> (Crashed e, st)
      | Inr st' \<Rightarrow>
          if key mod 256 = 113 then (Quit, st')
          else capture_loop U
                 (if key mod 256 = 115 then st'\<lparr>st_saved := st_saved st' + 1\<rparr> else st') its)"

record run_env =
  tesseract :: "string call"
  warmup :: "unit call"
  capture_opened :: "bool call"
  iterations :: "iteration list"
  release :: "unit call"
  destroy_windows :: "unit call"

datatype exit = Returned | Uncaught failure | StillRunning

text \<open>
  The \<^verbatim>\<open>finally\<close> block of \<^verbatim>\<open>main\<close>: \<^verbatim>\<open>cap.release()\<close>,
  \<^verbatim>\<open>cv2.destroyAllWindows()\<close>, \<^verbatim>\<open>stop_stream()\<close>, in this order; an exception raised by
  one of them ends the block there. Afterwards the exception that ended the loop, if
  any, propagates.
\<close>

definition finally_block ::
  "(string \<Rightarrow> py_error + int) \<Rightarrow> run_env \<Rightarrow> loop_end \<Rightarrow> os_state \<Rightarrow> exit \<times> os_state" where
  "finally_block py_int env ended s =
     (case release env of
        Raises e \<Rightarrow> (Uncaught (Py e), s)
      | Returns _ \<Rightarrow>
          (case destroy_windows env of
             Raises e \<Rightarrow> (Uncaught (Py e), s)
           | Returns _ \<Rightarrow>
               (case stop_stream py_int DEFAULT_PID s of
                  Inl (err, s') \<Rightarrow> (Uncaught err, s')
                | Inr s' \<Rightarrow>
                    (case ended of
                       Crashed e \<Rightarrow> (Uncaught (Py e), s')
                     | _ \<Rightarrow> (Returned, s')))))"

definition main ::
  "(nat \<Rightarrow> ustring) \<Rightarrow> (string \<Rightarrow> py_error + int) \<Rightarrow> run_env \<Rightarrow> os_state \<Rightarrow> exit \<times> os_state" where
  "main upper_nonascii py_int env s =
     (case (case tesseract env of
              Returns version \<Rightarrow> Inr (print (''Tesseract: '' @ version) s)
            | Raises e \<Rightarrow>
                if e = KeyboardInterrupt then Inl (Py e, s)
                else Inr (print ''Tesseract check failed (continuing)...'' s)) of
        Inl (err, s0) \<Rightarrow> (Uncaught err, s0)
      | Inr s0 \<Rightarrow>
     (case start_stream DEFAULT_URL DEFAULT_W DEFAULT_H DEFAULT_FPS DEFAULT_QUALITY
             DEFAULT_PID s0 of
        Inl (err, s1) \<Rightarrow> (Uncaught err, s1)
      | Inr s1 \<Rightarrow>
     (let s2 = sleep 700 s1 in
      case warmup env of
        Raises e \<Rightarrow> (Uncaught (Py e), s2)
      | Returns _ \<Rightarrow>
     (case capture_opened env of
        Raises e \<Rightarrow> (Uncaught (Py e), s2)
      | Returns opened \<Rightarrow>
          if \<not> opened then
            (case stop_stream py_int DEFAULT_PID (print ''ERROR: cannot open TCP stream.'' s2) of
               Inl (err, s3) \<Rightarrow> (Uncaught err, s3)
             | Inr s3 \<Rightarrow> (Returned, s3))
          else
            (let s3 = print ''Press 'q' to quit, 's' to save.'' s2 in
             case fst (capture_loop upper_nonascii
                         \<lparr>st_hist = [], st_frame_id = 0, st_shown = [], st_saved = 0\<rparr>
                         (iterations env)) of
               Unfinished \<Rightarrow> (StillRunning, s3)
             | ended \<Rightarrow> finally_block py_int env ended s3)))))"

subsection \<open>Example environments\<close>

text \<open>
  \<open>env_interrupted\<close>: a \<^verbatim>\<open>SIGINT\<close> arrives while \<^verbatim>\<open>open_capture\<close> connects to the
  stream. \<open>env_headless\<close>: an OpenCV build without window support, where
  \<^verbatim>\<open>cv2.imshow\<close> raises on the first frame and \<^verbatim>\<open>cv2.destroyAllWindows\<close> raises as
  well. \<open>env_quit\<close>: one frame is shown and the key \<^verbatim>\<open>q\<close> is pressed.
\<close>

definition env_interrupted :: run_env where
  "env_interrupted = \<lparr>tesseract = Returns ''5.3.0'', warmup = Returns (),
     capture_opened = Raises KeyboardInterrupt, iterations = [],
     release = Returns (), destroy_windows = Returns ()\<rparr>"

definition env_headless :: run_env where
  "env_headless = \<lparr>tesseract = Returns ''5.3.0'', warmup = Returns (),
     capture_opened = Returns True, iterations = [Fault CvError],
     release = Returns (), destroy_windows = Raises CvError\<rparr>"

definition env_quit :: run_env where
  "env_quit = \<lparr>tesseract = Returns ''5.3.0'', warmup = Returns (),
     capture_opened = Returns True, iterations = [NoFrame, Frame [] [] 113],
     release = Returns (), destroy_windows = Returns ()\<rparr>"

section \<open>Facts about the counter\<close>

lemma map_of_counter_incr:
  "map_of (counter_incr k c) k' =
     (if k' = k then Some (case map_of c k of None \<Rightarrow> 1 | Some n \<Rightarrow> n + 1)
      else map_of c k')"
  by (induction k c rule: counter_incr.induct) auto

lemma keys_counter_incr: "fst ` set (counter_incr k c) = insert k (fst ` set c)"
  by (induction k c rule: counter_incr.induct) auto

lemma distinct_counter_incr:
  "distinct (map fst c) \<Longrightarrow> distinct (map fst (counter_incr k c))"
proof (induction k c rule: counter_incr.induct)
  case (1 k)
  then show ?case by simp
next
  case (2 k k' n kvs)
  then show ?case
    using keys_counter_incr [of k kvs] by auto
qed

lemma Counter_snoc: "Counter (xs @ [x]) = counter_incr x (Counter xs)"
  by (simp add: Counter_def)

lemma distinct_Counter: "distinct (map fst (Counter xs))"
proof (induction xs rule: rev_induct)
  case Nil
  then show ?case by (simp add: Counter_def)
next
  case (snoc x xs)
  then show ?case by (simp add: Counter_snoc distinct_counter_incr)
qed

lemma map_of_Counter:
  "map_of (Counter xs) k = (if k \<in> set xs then Some (count_list xs k) else None)"
proof (induction xs rule: rev_induct)
  case Nil
  then show ?case by (simp add: Counter_def)
next
  case (snoc x xs)
  then show ?case by (auto simp: Counter_snoc map_of_counter_incr)
qed

lemma Counter_member:
  "(k, n) \<in> set (Counter xs) \<longleftrightarrow> k \<in> set xs \<and> n = count_list xs k"
proof -
  have "(k, n) \<in> set (Counter xs) \<longleftrightarrow> map_of (Counter xs) k = Some n"
    using distinct_Counter [of xs] by simp
  then show ?thesis by (auto simp: map_of_Counter)
qed

lemma Counter_eq_Nil: "Counter xs = [] \<longleftrightarrow> xs = []"
proof
  assume "Counter xs = []"
  then have "map_of (Counter xs) = Map.empty" by simp
  then have "\<forall>k. k \<notin> set xs"
    by (metis map_of_Counter option.distinct(1))
  then show "xs = []" by (cases xs) auto
next
  assume "xs = []"
  then show "Counter xs = []" by (simp add: Counter_def)
qed

lemma max_by_count_member: "max_by_count b kvs \<in> set (b # kvs)"
  by (induction b kvs rule: max_by_count.induct) auto

lemma max_by_count_ge: "kv \<in> set (b # kvs) \<Longrightarrow> snd kv \<le> snd (max_by_count b kvs)"
proof (induction b kvs arbitrary: kv rule: max_by_count.induct)
  case (1 b)
  then show ?case by simp
next
  case (2 b kv' kvs)
  have step: "snd b \<le> snd (max_by_count (if snd kv' > snd b then kv' else b) kvs)"
  proof (cases "snd kv' > snd b")
    case True
    then have "snd kv' \<le> snd (max_by_count kv' kvs)"
      using "2.IH" [of kv'] by simp
    with True show ?thesis by simp
  next
    case False
    then show ?thesis using "2.IH" [of b] by simp
  qed
  from "2.prems" consider "kv = b" | "kv = kv'" | "kv \<in> set kvs" by auto
  then show ?case
  proof cases
    case 1
    then show ?thesis using step by simp
  next
    case 2
    show ?thesis
    proof (cases "snd kv' > snd b")
      case True
      then show ?thesis using "2.IH" [of kv'] 2 by simp
    next
      case False
      then have "snd kv' \<le> snd b" by simp
      with step 2 show ?thesis by simp
    qed
  next
    case 3
    then show ?thesis using "2.IH" [of kv] by simp
  qed
qed

text \<open>What the vote computes on a non-empty window.\<close>

lemma most_common1_Counter:
  assumes "hist \<noteq> []"
  obtains best where
    "most_common1 (Counter hist) = [(best, count_list hist best)]"
    "best \<in> set hist"
    "\<forall>t. count_list hist t \<le> count_list hist best"
proof -
  from assms obtain kv kvs where c: "Counter hist = kv # kvs"
    using Counter_eq_Nil [of hist] by (cases "Counter hist") auto
  define r where "r = max_by_count kv kvs"
  have mc: "most_common1 (Counter hist) = [r]"
    by (simp add: most_common1_def c r_def)
  have "r \<in> set (Counter hist)"
    using max_by_count_member [of kv kvs] by (simp add: c r_def)
  then have r: "fst r \<in> set hist" "snd r = count_list hist (fst r)"
    using Counter_member [of "fst r" "snd r" hist] by simp_all
  have "count_list hist t \<le> count_list hist (fst r)" for t
  proof (cases "t \<in> set hist")
    case True
    then have "(t, count_list hist t) \<in> set (kv # kvs)"
      using Counter_member [of t "count_list hist t" hist] by (simp add: c)
    from max_by_count_ge [OF this] show ?thesis
      using r by (simp add: r_def)
  next
    case False
    then show ?thesis by simp
  qed
  then have "\<forall>t. count_list hist t \<le> count_list hist (fst r)" by blast
  moreover have "most_common1 (Counter hist) = [(fst r, count_list hist (fst r))]"
    using mc r by (cases r) simp
  ultimately show ?thesis using that r by blast
qed

lemma stable_result:
  obtains (absent) "stable hist = Inr []"
  | (voted) best where
      "stable hist = Inr best" "best \<in> set hist" "REQUIRED \<le> count_list hist best"
      "\<forall>t. count_list hist t \<le> count_list hist best"
proof (cases "hist = []")
  case True
  then have "stable hist = Inr []" by (simp add: stable_def)
  then show ?thesis by (rule absent)
next
  case False
  then obtain best where b:
    "most_common1 (Counter hist) = [(best, count_list hist best)]"
    "best \<in> set hist"
    "\<forall>t. count_list hist t \<le> count_list hist best"
    by (rule most_common1_Counter)
  show ?thesis
  proof (cases "REQUIRED \<le> count_list hist best")
    case True
    with False b have "stable hist = Inr best" by (simp add: stable_def)
    with b True show ?thesis by (intro voted [of best]) simp_all
  next
    case False
    with \<open>hist \<noteq> []\<close> b have "stable hist = Inr []" by (simp add: stable_def)
    then show ?thesis by (rule absent)
  qed
qed

lemma stable_below_threshold:
  assumes "\<forall>t. count_list hist t < REQUIRED"
  shows "stable hist = Inr []"
proof (cases hist rule: stable_result)
  case absent
  then show ?thesis .
next
  case (voted best)
  from assms have "count_list hist best < REQUIRED" by blast
  with voted(3) have False by linarith
  then show ?thesis ..
qed

section \<open>Facts about the window\<close>

lemma deque_append_HISTORY:
  "deque_append HISTORY hist p = (if length hist < HISTORY then hist @ [p] else tl hist @ [p])"
  by (cases hist) (auto simp: deque_append_def HISTORY_def)

lemma length_deque_append:
  "length d \<le> maxlen \<Longrightarrow> length (deque_append maxlen d x) \<le> maxlen"
  by (auto simp: deque_append_def Let_def)

lemma length_offer: "length hist \<le> HISTORY \<Longrightarrow> length (offer hist p) \<le> HISTORY"
  by (simp add: offer_def length_deque_append)

lemma length_offers: "length hist \<le> HISTORY \<Longrightarrow> length (offers hist ps) \<le> HISTORY"
  unfolding offers_def
  by (induction ps arbitrary: hist) (simp_all add: length_offer)

lemma set_deque_append: "set (deque_append maxlen d x) \<subseteq> insert x (set d)"
proof -
  have "set (tl (d @ [x])) \<subseteq> set (d @ [x])"
    by (cases "d @ [x]") auto
  then show ?thesis by (auto simp: deque_append_def Let_def)
qed

lemma plate_sized_offer:
  assumes "\<forall>x\<in>set hist. plate_sized x"
  shows "\<forall>x\<in>set (offer hist p). plate_sized x"
proof (cases "PLATE_MIN \<le> length p \<and> length p \<le> PLATE_MAX")
  case True
  then have "set (offer hist p) \<subseteq> insert p (set hist)"
    by (simp add: offer_def set_deque_append)
  moreover from True have "plate_sized p" by (simp add: plate_sized_def)
  ultimately show ?thesis using assms by auto
next
  case False
  then have "offer hist p = hist" by (auto simp: offer_def)
  then show ?thesis using assms by simp
qed

lemma plate_sized_offers:
  "\<forall>x\<in>set hist. plate_sized x \<Longrightarrow> \<forall>x\<in>set (offers hist ps). plate_sized x"
  unfolding offers_def
proof (induction ps arbitrary: hist)
  case Nil
  then show ?case by simp
next
  case (Cons p ps)
  from Cons.prems have "\<forall>x\<in>set (offer hist p). plate_sized x"
    by (rule plate_sized_offer)
  then show ?case using Cons.IH by simp
qed

section \<open>The claims about the consensus engine\<close>

text \<open>
  C1. For every window, the vote does not raise; a non-empty result is an element of the
  window whose count is at least \<open>REQUIRED\<close> and is the maximal count in the window;
  when every count is below \<open>REQUIRED\<close> the result is the empty string (Absent). With
  \<open>REQUIRED = 4\<close>, the window AB12CD, AB12CD, AB12CD, XY99ZZ gives Absent.
\<close>

theorem stable_threshold:
  "(\<forall>e. stable hist \<noteq> Inl e) \<and>
   (\<forall>r. stable hist = Inr r \<and> r \<noteq> [] \<longrightarrow>
      r \<in> set hist \<and> REQUIRED \<le> count_list hist r \<and>
      (\<forall>t. count_list hist t \<le> count_list hist r)) \<and>
   ((\<forall>t. count_list hist t < REQUIRED) \<longrightarrow> stable hist = Inr []) \<and>
   stable [''AB12CD'', ''AB12CD'', ''AB12CD'', ''XY99ZZ''] = Inr []"
proof -
  have a: "\<forall>e. stable hist \<noteq> Inl e"
    by (cases hist rule: stable_result) simp_all
  have b: "\<forall>r. stable hist = Inr r \<and> r \<noteq> [] \<longrightarrow>
      r \<in> set hist \<and> REQUIRED \<le> count_list hist r \<and>
      (\<forall>t. count_list hist t \<le> count_list hist r)"
    by (cases hist rule: stable_result) auto
  have c: "(\<forall>t. count_list hist t < REQUIRED) \<longrightarrow> stable hist = Inr []"
    by (simp add: stable_below_threshold)
  have d: "stable [''AB12CD'', ''AB12CD'', ''AB12CD'', ''XY99ZZ''] = Inr []"
    by (simp add: stable_def Counter_def most_common1_def REQUIRED_def)
  from a b c d show ?thesis by blast
qed

theorem stable_threshold_witness:
  "stable (replicate 4 ''AB12CD'') = Inr ''AB12CD'' \<and> ''AB12CD'' \<noteq> [] \<and>
   REQUIRED \<le> count_list (replicate 4 ''AB12CD'') ''AB12CD'' \<and>
   (\<forall>t. count_list [''AB12CD'', ''XY99ZZ''] t < REQUIRED) \<and>
   stable [''AB12CD'', ''XY99ZZ''] = Inr []"
proof -
  have s: "stable (replicate 4 ''AB12CD'') = Inr ''AB12CD''"
    by (simp add: stable_def Counter_def most_common1_def REQUIRED_def numeral_eq_Suc)
  have n: "''AB12CD'' \<noteq> []" by simp
  have lt: "\<forall>t. count_list [''AB12CD'', ''XY99ZZ''] t < REQUIRED"
    by (simp add: REQUIRED_def)
  from stable_threshold [of "replicate 4 ''AB12CD''"] s n lt
    stable_threshold [of "[''AB12CD'', ''XY99ZZ'']"]
  show ?thesis by blast
qed

text \<open>
  C2. An offered candidate is appended to the bounded window when its length lies in
  \<open>[PLATE_MIN, PLATE_MAX]\<close>, and the window is left as it is otherwise. A candidate of
  length 4 is rejected and one of length 6 is accepted.
\<close>

theorem offer_accepts_iff_plate_sized:
  "(PLATE_MIN \<le> length p \<and> length p \<le> PLATE_MAX \<longrightarrow>
      offer hist p = (if length hist < HISTORY then hist @ [p] else tl hist @ [p])) \<and>
   (\<not> (PLATE_MIN \<le> length p \<and> length p \<le> PLATE_MAX) \<longrightarrow> offer hist p = hist) \<and>
   (length p = 4 \<longrightarrow> offer hist p = hist) \<and>
   (length p = 6 \<longrightarrow> offer hist p = deque_append HISTORY hist p \<and> last (offer hist p) = p)"
proof -
  have "last (deque_append HISTORY hist p) = p"
    by (simp add: deque_append_HISTORY)
  then show ?thesis
    by (simp add: offer_def deque_append_HISTORY PLATE_MIN_def PLATE_MAX_def)
qed

theorem offer_accepts_iff_plate_sized_witness:
  "offer [''AB12CD''] ''XY99ZZ'' = [''AB12CD'', ''XY99ZZ''] \<and>
   offer [''AB12CD''] ''XY99'' = [''AB12CD''] \<and>
   offer [''AB12CD''] ''XY99ZZ123'' = [''AB12CD'']"
  using offer_accepts_iff_plate_sized [of "''XY99ZZ''" "[''AB12CD'']"]
    offer_accepts_iff_plate_sized [of "''XY99''" "[''AB12CD'']"]
    offer_accepts_iff_plate_sized [of "''XY99ZZ123''" "[''AB12CD'']"]
  by (simp add: PLATE_MIN_def PLATE_MAX_def HISTORY_def)

text \<open>
  C5. The window is a bounded FIFO buffer: after any sequence of offers, starting from
  the empty window that \<^verbatim>\<open>main\<close> creates (or from any window within the bound), it
  holds at most \<open>HISTORY\<close> samples; an accepted sample offered to a full window
  \<open>oldest # rest\<close> yields \<open>rest @ [sample]\<close>: the oldest sample alone is evicted and
  the others keep their order.
\<close>

theorem window_bounded_fifo:
  "length (offers [] ps) \<le> HISTORY \<and>
   (length hist \<le> HISTORY \<longrightarrow> length (offers hist ps) \<le> HISTORY) \<and>
   (length (oldest # rest) = HISTORY \<and> PLATE_MIN \<le> length p \<and> length p \<le> PLATE_MAX \<longrightarrow>
      offer (oldest # rest) p = rest @ [p])"
proof -
  have "length (offers ([] :: 'a list list) ps) \<le> HISTORY"
    by (rule length_offers) simp
  moreover have "length hist \<le> HISTORY \<longrightarrow> length (offers hist ps) \<le> HISTORY"
    by (simp add: length_offers)
  moreover have "length (oldest # rest) = HISTORY \<and> PLATE_MIN \<le> length p \<and>
      length p \<le> PLATE_MAX \<longrightarrow> offer (oldest # rest) p = rest @ [p]"
    by (simp add: offer_def deque_append_def)
  ultimately show ?thesis by blast
qed

theorem window_bounded_fifo_witness:
  "length (''OLD123'' # replicate 14 ''AB12CD'') = HISTORY \<and>
   offer (''OLD123'' # replicate 14 ''AB12CD'') ''NEW456'' = replicate 14 ''AB12CD'' @ [''NEW456''] \<and>
   length (offers (''OLD123'' # replicate 14 ''AB12CD'') [''NEW456'', ''NEW789'']) \<le> HISTORY"
proof -
  have len: "length (''OLD123'' # replicate 14 ''AB12CD'') = HISTORY"
    by (simp add: HISTORY_def)
  have p: "PLATE_MIN \<le> length ''NEW456'' \<and> length ''NEW456'' \<le> PLATE_MAX"
    by (simp add: PLATE_MIN_def PLATE_MAX_def)
  from window_bounded_fifo
    [of "[''NEW456'', ''NEW789'']" "''OLD123'' # replicate 14 ''AB12CD''"
      "''OLD123''" "replicate 14 ''AB12CD''" "''NEW456''"] len p
  show ?thesis by simp
qed

text \<open>
  C10. Every sample in a window built by offers from the empty window has its length in
  \<open>[PLATE_MIN, PLATE_MAX]\<close> and is not the empty string; so a non-empty result of the
  vote on such a window has its length in \<open>[PLATE_MIN, PLATE_MAX]\<close>.
\<close>

theorem window_samples_plate_sized:
  "(\<forall>x\<in>set (offers [] ps). PLATE_MIN \<le> length x \<and> length x \<le> PLATE_MAX \<and> x \<noteq> []) \<and>
   (\<forall>r. stable (offers [] ps) = Inr r \<and> r \<noteq> [] \<longrightarrow>
      PLATE_MIN \<le> length r \<and> length r \<le> PLATE_MAX)"
proof -
  have inv: "\<forall>x\<in>set (offers ([] :: 'a list list) ps). plate_sized x"
    by (rule plate_sized_offers) simp
  have a: "\<forall>x\<in>set (offers [] ps). PLATE_MIN \<le> length x \<and> length x \<le> PLATE_MAX \<and> x \<noteq> []"
  proof
    fix x :: "'a list"
    assume "x \<in> set (offers [] ps)"
    with inv have "plate_sized x" by blast
    then show "PLATE_MIN \<le> length x \<and> length x \<le> PLATE_MAX \<and> x \<noteq> []"
      by (auto simp: plate_sized_def PLATE_MIN_def)
  qed
  have b: "\<forall>r. stable (offers [] ps) = Inr r \<and> r \<noteq> [] \<longrightarrow>
      PLATE_MIN \<le> length r \<and> length r \<le> PLATE_MAX"
  proof (cases "offers [] ps" rule: stable_result)
    case absent
    then show ?thesis by simp
  next
    case (voted best)
    from voted(2) a have "PLATE_MIN \<le> length best \<and> length best \<le> PLATE_MAX" by blast
    with voted(1) show ?thesis by simp
  qed
  from a b show ?thesis by blast
qed

theorem window_samples_plate_sized_witness:
  "offers [] [''AB12CD'', ''X'', ''AB12CD'', ''AB12CD'', ''AB12CD''] = replicate 4 ''AB12CD'' \<and>
   stable (replicate 4 ''AB12CD'') = Inr ''AB12CD'' \<and>
   PLATE_MIN \<le> length ''AB12CD'' \<and> length ''AB12CD'' \<le> PLATE_MAX"
proof -
  have o: "offers [] [''AB12CD'', ''X'', ''AB12CD'', ''AB12CD'', ''AB12CD'']
      = replicate 4 ''AB12CD''"
    by (simp add: offers_def offer_def deque_append_def PLATE_MIN_def PLATE_MAX_def
        HISTORY_def numeral_eq_Suc)
  have s: "stable (replicate 4 ''AB12CD'') = Inr ''AB12CD''"
    by (simp add: stable_def Counter_def most_common1_def REQUIRED_def numeral_eq_Suc)
  have m: "''AB12CD'' \<in> set (replicate 4 ''AB12CD'')" by simp
  from window_samples_plate_sized [of "[''AB12CD'', ''X'', ''AB12CD'', ''AB12CD'', ''AB12CD'']"]
    o s m
  show ?thesis by auto
qed

section \<open>Facts about the normalisation\<close>

lemma filter_dropWhile_disjoint:
  "(\<And>x. P x \<Longrightarrow> \<not> Q x) \<Longrightarrow> filter Q (dropWhile P xs) = filter Q xs"
  by (induction xs) auto

lemma filter_py_strip:
  assumes "\<And>x. py_isspace x \<Longrightarrow> \<not> Q x"
  shows "filter Q (py_strip s) = filter Q s"
proof -
  have "filter Q (py_strip s) = rev (filter Q (dropWhile py_isspace (rev (dropWhile py_isspace s))))"
    by (simp add: py_strip_def rev_filter)
  also have "\<dots> = rev (filter Q (rev (dropWhile py_isspace s)))"
    using assms by (simp add: filter_dropWhile_disjoint)
  also have "\<dots> = filter Q (dropWhile py_isspace s)"
    by (simp add: rev_filter)
  also have "\<dots> = filter Q s"
    using assms by (simp add: filter_dropWhile_disjoint)
  finally show ?thesis .
qed

lemma py_replace1_delete: "py_replace1 old [] s = filter (\<lambda>c. c \<noteq> old) s"
  by (induction s) (auto simp: py_replace1_def)

lemma py_replace1_single: "py_replace1 old [new] s = map (\<lambda>c. if c = old then new else c) s"
  by (induction s) (auto simp: py_replace1_def)

lemma substitute_twice:
  "py_replace1 (of_char CHR ''|'') (ustr ''1'') (py_replace1 (of_char CHR ''O'') (ustr ''0'') s)
     = map substitute s"
  by (simp add: py_replace1_single ustr_def substitute_def)

lemma in_alphabet_allowed: "c \<in> set allowed \<longleftrightarrow> in_alphabet c"
proof
  assume "c \<in> set allowed"
  then show "in_alphabet c"
    by (auto simp: allowed_def ustr_def in_alphabet_def)
next
  assume "in_alphabet c"
  then have "(65 \<le> c \<and> c \<le> 90) \<or> (48 \<le> c \<and> c \<le> 57)"
    by (simp add: in_alphabet_def)
  then show "c \<in> set allowed"
    by (simp add: allowed_def ustr_def) arith
qed

lemma space_not_kept: "py_isspace c \<Longrightarrow> \<not> in_alphabet (substitute c)"
  by (auto simp: py_isspace_def in_alphabet_def substitute_def)

lemma normalize_plate_eq_spec: "normalize_plate U s = normalize_spec U s"
proof -
  define u where "u = py_upper U s"
  define Q where "Q = (\<lambda>c. in_alphabet (substitute c))"
  have Q: "\<And>x. py_isspace x \<Longrightarrow> \<not> Q x"
    by (simp add: Q_def space_not_kept)
  have "normalize_plate U s
      = filter in_alphabet (map substitute (filter (\<lambda>c. c \<noteq> 32) (py_strip u)))"
    unfolding normalize_plate_def Let_def substitute_twice
    by (simp add: py_replace1_delete in_alphabet_allowed u_def)
  also have "\<dots> = map substitute (filter Q (filter (\<lambda>c. c \<noteq> 32) (py_strip u)))"
    by (simp add: filter_map Q_def comp_def)
  also have "filter Q (filter (\<lambda>c. c \<noteq> 32) (py_strip u)) = filter Q (py_strip u)"
  proof -
    have "\<And>c. Q c \<Longrightarrow> c \<noteq> 32"
      using Q [of 32] by (auto simp: py_isspace_def)
    then show ?thesis by (auto intro: filter_cong)
  qed
  also have "filter Q (py_strip u) = filter Q u"
    using Q by (rule filter_py_strip)
  also have "filter Q u = filter Q (filter (\<lambda>c. \<not> py_isspace c) u)"
    using Q by (auto intro: filter_cong)
  also have "map substitute (filter Q (filter (\<lambda>c. \<not> py_isspace c) u))
      = filter in_alphabet (map substitute (filter (\<lambda>c. \<not> py_isspace c) u))"
    by (simp add: filter_map Q_def comp_def)
  finally show ?thesis by (simp add: normalize_spec_def u_def)
qed

section \<open>The claims about the OCR-candidate variant\<close>

text \<open>
  C6. Normalisation is a function of its input alone: for every input it equals
  uppercasing, removing whitespace, substituting O by 0 and | by 1 with the other
  characters unchanged, and dropping what is outside A--Z and 0--9; the result contains
  only characters of that alphabet; and normalising \<^verbatim>\<open>o1|b\<close> gives \<^verbatim>\<open>011B\<close>.
\<close>

theorem normalize_plate_spec:
  "normalize_plate U s = normalize_spec U s \<and>
   list_all in_alphabet (normalize_plate U s) \<and>
   normalize_plate U (ustr ''o1|b'') = ustr ''011B''"
proof -
  have "list_all in_alphabet (normalize_spec U s)"
    by (simp add: normalize_spec_def list_all_iff)
  moreover have "normalize_plate U (ustr ''o1|b'') = ustr ''011B''"
    by (simp add: normalize_plate_def ustr_def py_upper_def py_strip_def py_isspace_def
        py_replace1_def allowed_def)
  ultimately show ?thesis by (simp add: normalize_plate_eq_spec)
qed

theorem normalize_plate_spec_witness:
  "normalize_plate (\<lambda>c. [c]) (ustr '' aO|9 z-'') = ustr ''A019Z'' \<and>
   list_all in_alphabet (ustr ''A019Z'')"
proof -
  have "normalize_spec (\<lambda>c. [c]) (ustr '' aO|9 z-'') = ustr ''A019Z''"
    by (simp add: normalize_spec_def ustr_def py_upper_def py_isspace_def substitute_def
        in_alphabet_def)
  with normalize_plate_spec [of "\<lambda>c. [c]" "ustr '' aO|9 z-''"]
  show ?thesis by auto
qed

text \<open>
  C7. The candidate selection returns the longer of the two normalised strings: the
  first when it is strictly longer, the second when that one is strictly longer.
\<close>

theorem ocr_best_longer:
  "(length (normalize_plate U txt_a) > length (normalize_plate U txt_b) \<longrightarrow>
      ocr_best U txt_a txt_b = normalize_plate U txt_a) \<and>
   (length (normalize_plate U txt_b) > length (normalize_plate U txt_a) \<longrightarrow>
      ocr_best U txt_a txt_b = normalize_plate U txt_b) \<and>
   length (ocr_best U txt_a txt_b)
     = max (length (normalize_plate U txt_a)) (length (normalize_plate U txt_b))"
  by (simp add: ocr_best_def Let_def)

theorem ocr_best_longer_witness:
  "ocr_best (\<lambda>c. [c]) (ustr ''ab 12cd'') (ustr ''b12'') = ustr ''AB12CD'' \<and>
   ocr_best (\<lambda>c. [c]) (ustr ''b12'') (ustr ''ab 12cd'') = ustr ''AB12CD''"
proof -
  have a: "normalize_plate (\<lambda>c. [c]) (ustr ''ab 12cd'') = ustr ''AB12CD''"
    by (simp add: normalize_plate_def ustr_def py_upper_def py_strip_def py_isspace_def
        py_replace1_def allowed_def)
  have b: "normalize_plate (\<lambda>c. [c]) (ustr ''b12'') = ustr ''B12''"
    by (simp add: normalize_plate_def ustr_def py_upper_def py_strip_def py_isspace_def
        py_replace1_def allowed_def)
  from ocr_best_longer [of "\<lambda>c. [c]" "ustr ''b12''" "ustr ''ab 12cd''"]
    ocr_best_longer [of "\<lambda>c. [c]" "ustr ''ab 12cd''" "ustr ''b12''"] a b
  show ?thesis by (simp add: ustr_def)
qed

section \<open>Facts about the stream supervisor\<close>

lemma decimal_int_4242: "decimal_int ''4242'' = Inr 4242"
  by (simp add: decimal_int_def)

lemma start_stream_existing:
  assumes "files s pid_file \<noteq> None"
  shows "start_stream url w h fps q pid_file s
    = Inr (s\<lparr>trace := trace s @ [Print ''Stream already running (pid file exists).'']\<rparr>)"
  using assms by (simp add: start_stream_def os_path_exists_def print_def log_def)

lemma start_stream_creates_pid_file:
  assumes "start_stream url w h fps q pid_file s = Inr s1"
  shows "files s1 pid_file \<noteq> None"
proof (cases "files s pid_file = None")
  case False
  with assms show ?thesis
    by (auto simp: start_stream_existing)
next
  case True
  with assms show ?thesis
    by (auto simp: start_stream_def os_path_exists_def popen_def print_def log_def
        write_file_def Let_def split: if_splits)
qed


lemma os_kill_overflow:
  assumes "INT_MAX < pid"
  shows "os_kill pid sig s = Inl (Py OverflowError, s)"
  using assms by (simp add: os_kill_def)


lemma os_kill_foreign:
  assumes "0 < pid" "pid \<le> INT_MAX" "\<not> running (nat pid) s"
    "nat pid \<in> fst ` set (others s)"
  shows "os_kill pid sig s = Inl (Py PermissionError, s\<lparr>trace := trace s @ [Kill pid sig]\<rparr>)"
  using assms by (simp add: os_kill_def Let_def log_def INT_MIN_def)

lemma os_kill_running:
  assumes "0 < pid" "pid \<le> INT_MAX" "running (nat pid) s"
  shows "os_kill pid sig s
    = Inr (s\<lparr>procs := filter (\<lambda>p. \<not> (fst p = nat pid \<and> dies sig (snd p))) (procs s),
             trace := trace s @ [Kill pid sig]\<rparr>)"
  using assms by (simp add: os_kill_def Let_def log_def deliver_def INT_MIN_def)

section \<open>The claims about the stream supervisor\<close>

text \<open>
  C4. Start is idempotent with respect to the lock file. When the lock file exists,
  \<^verbatim>\<open>start_stream\<close> returns without error and changes nothing but the output, where it
  reports that the stream is already running: no process is spawned and no file is
  written. After any start that returned, a second start (with whatever settings) for
  the same lock file is such a call.
\<close>

theorem start_stream_idempotent:
  "(files s pid_file \<noteq> None \<longrightarrow>
      start_stream url w h fps q pid_file s
        = Inr (s\<lparr>trace := trace s @ [Print ''Stream already running (pid file exists).'']\<rparr>)) \<and>
   (start_stream url w h fps q pid_file s = Inr s1 \<longrightarrow>
      files s1 pid_file \<noteq> None \<and>
      start_stream url' w' h' fps' q' pid_file s1
        = Inr (s1\<lparr>trace := trace s1 @ [Print ''Stream already running (pid file exists).'']\<rparr>))"
proof (intro conjI impI)
  assume "files s pid_file \<noteq> None"
  then show "start_stream url w h fps q pid_file s
      = Inr (s\<lparr>trace := trace s @ [Print ''Stream already running (pid file exists).'']\<rparr>)"
    by (rule start_stream_existing)
next
  assume "start_stream url w h fps q pid_file s = Inr s1"
  then show "files s1 pid_file \<noteq> None"
    by (rule start_stream_creates_pid_file)
next
  assume "start_stream url w h fps q pid_file s = Inr s1"
  then have "files s1 pid_file \<noteq> None"
    by (rule start_stream_creates_pid_file)
  then show "start_stream url' w' h' fps' q' pid_file s1
      = Inr (s1\<lparr>trace := trace s1 @ [Print ''Stream already running (pid file exists).'']\<rparr>)"
    by (rule start_stream_existing)
qed

theorem start_stream_idempotent_witness:
  "start_stream DEFAULT_URL DEFAULT_W DEFAULT_H DEFAULT_FPS DEFAULT_QUALITY DEFAULT_PID os_idle
     = Inr os_started \<and>
   files os_started DEFAULT_PID \<noteq> None \<and>
   start_stream DEFAULT_URL DEFAULT_W DEFAULT_H DEFAULT_FPS DEFAULT_QUALITY DEFAULT_PID os_started
     = Inr (os_started\<lparr>trace := trace os_started @
              [Print ''Stream already running (pid file exists).'']\<rparr>)"
proof -
  have first: "start_stream DEFAULT_URL DEFAULT_W DEFAULT_H DEFAULT_FPS DEFAULT_QUALITY
      DEFAULT_PID os_idle = Inr os_started"
    by (simp add: start_stream_def os_path_exists_def popen_def print_def log_def
        write_file_def Let_def os_idle_def os_started_def str_nat.simps DEFAULT_URL_def
        DEFAULT_W_def DEFAULT_H_def DEFAULT_FPS_def DEFAULT_QUALITY_def DEFAULT_PID_def)
  have "start_stream DEFAULT_URL DEFAULT_W DEFAULT_H DEFAULT_FPS DEFAULT_QUALITY
      DEFAULT_PID os_idle = Inr os_started \<longrightarrow>
    files os_started DEFAULT_PID \<noteq> None \<and>
    start_stream DEFAULT_URL DEFAULT_W DEFAULT_H DEFAULT_FPS DEFAULT_QUALITY DEFAULT_PID
      os_started
      = Inr (os_started\<lparr>trace := trace os_started @
               [Print ''Stream already running (pid file exists).'']\<rparr>)"
    using start_stream_idempotent
      [of os_idle DEFAULT_PID DEFAULT_URL DEFAULT_W DEFAULT_H DEFAULT_FPS DEFAULT_QUALITY
        os_started DEFAULT_URL DEFAULT_W DEFAULT_H DEFAULT_FPS DEFAULT_QUALITY]
    by (rule conjunct2)
  with first show ?thesis by blast
qed




section \<open>Facts about stopping a process group\<close>

lemma map_of_running: "map_of (procs s) pid = Some pr \<Longrightarrow> running pid s"
  by (auto simp: running_def dest!: map_of_SomeD intro: rev_image_eqI)

lemma os_killpg_group:
  assumes "g \<noteq> 0" "g \<noteq> own_pgid s" "(pid, pr) \<in> set (procs s)" "pgid pr = g"
  shows "os_killpg g sig s
    = Inr (s\<lparr>procs := filter (\<lambda>p. \<not> (pgid (snd p) = g \<and> dies sig (snd p))) (procs s),
             trace := trace s @ [Killpg g sig]\<rparr>)"
proof -
  from assms(3,4) have "list_ex (\<lambda>p. pgid (snd p) = g) (procs s)"
    unfolding list_ex_iff by (intro bexI [of _ "(pid, pr)"]) simp_all
  with assms(1,2) show ?thesis
    by (simp add: os_killpg_def signal_group_def log_def deliver_def)
qed

lemma stop_group_running:
  assumes d: "distinct (map fst (procs s))"
    and m: "map_of (procs s) pid = Some pr"
    and p: "pid \<noteq> 0" and g: "pgid pr \<noteq> 0" "pgid pr \<noteq> own_pgid s"
  shows "stop_group pid s
    = Inr (s\<lparr>procs :=
               (if term_resistant pr then filter (\<lambda>p. pgid (snd p) \<noteq> pgid pr) (procs s)
                else filter (\<lambda>p. \<not> (pgid (snd p) = pgid pr \<and> \<not> term_resistant (snd p)))
                       (procs s)),
             trace := trace s @
               (if term_resistant pr
                then [Killpg (pgid pr) SIGTERM, Sleep 300, Killpg (pgid pr) SIGKILL]
                else [Killpg (pgid pr) SIGTERM, Sleep 300])\<rparr>)"
proof -
  define P where "P = (\<lambda>p :: nat \<times> process. \<not> (pgid (snd p) = pgid pr \<and> dies SIGTERM (snd p)))"
  define s2 where "s2 = s\<lparr>procs := filter P (procs s),
      trace := trace s @ [Killpg (pgid pr) SIGTERM, Sleep 300]\<rparr>"
  from m have mem: "(pid, pr) \<in> set (procs s)" by (rule map_of_SomeD)
  have pg: "os_getpgid pid s = Inr (pgid pr)"
    using m p by (simp add: os_getpgid_def)
  have k1: "os_killpg (pgid pr) SIGTERM s
      = Inr (s\<lparr>procs := filter P (procs s), trace := trace s @ [Killpg (pgid pr) SIGTERM]\<rparr>)"
    using os_killpg_group [OF g mem refl] by (simp add: P_def)
  have body: "stop_group pid s =
      (if running pid s2 then
         (case os_getpgid pid s2 of Inl e \<Rightarrow> Inl (e, s2) | Inr g' \<Rightarrow> os_killpg g' SIGKILL s2)
       else Inr s2)"
  proof -
    have "sleep 300 (s\<lparr>procs := filter P (procs s),
        trace := trace s @ [Killpg (pgid pr) SIGTERM]\<rparr>) = s2"
      by (simp add: s2_def sleep_def log_def)
    then show ?thesis
      by (simp add: stop_group_def pg k1 Let_def)
  qed
  show ?thesis
  proof (cases "term_resistant pr")
    case True
    then have keep: "P (pid, pr)" by (simp add: P_def dies_def)
    with mem have mem2: "(pid, pr) \<in> set (procs s2)" by (simp add: s2_def)
    then have run: "running pid s2" by (auto simp: running_def intro: rev_image_eqI)
    have "map_of (filter (\<lambda>(k, v). P (k, v)) (procs s)) pid = Some pr"
      using m keep by (rule map_of_filter_in)
    then have pg2: "os_getpgid pid s2 = Inr (pgid pr)"
      using p by (simp add: os_getpgid_def s2_def)
    have own: "pgid pr \<noteq> own_pgid s2" using g by (simp add: s2_def)
    have k2: "os_killpg (pgid pr) SIGKILL s2
        = Inr (s2\<lparr>procs := filter (\<lambda>p. \<not> (pgid (snd p) = pgid pr \<and> dies SIGKILL (snd p)))
                   (procs s2),
                 trace := trace s2 @ [Killpg (pgid pr) SIGKILL]\<rparr>)"
      using os_killpg_group [OF g(1) own mem2 refl] .
    have "filter (\<lambda>p. \<not> (pgid (snd p) = pgid pr \<and> dies SIGKILL (snd p))) (filter P (procs s))
        = filter (\<lambda>p. pgid (snd p) \<noteq> pgid pr) (procs s)"
      by (auto simp: P_def dies_def intro: filter_cong)
    with True show ?thesis
      by (simp add: body run pg2 k2) (simp add: s2_def)
  next
    case False
    have "pid \<notin> fst ` set (filter P (procs s))"
    proof
      assume "pid \<in> fst ` set (filter P (procs s))"
      then obtain pr' where in': "(pid, pr') \<in> set (procs s)" and keep: "P (pid, pr')"
        by auto
      from d in' have "map_of (procs s) pid = Some pr'" by (rule map_of_is_SomeI)
      with m have "pr' = pr" by simp
      with keep False show False by (simp add: P_def dies_def)
    qed
    then have "\<not> running pid s2" by (simp add: running_def s2_def)
    with False show ?thesis
      by (simp add: body) (simp add: s2_def P_def dies_def)
  qed
qed

lemma stop_stream_running:
  assumes "files s pid_file = Some text" "py_int text = Inr pid" "0 < pid"
    "running (nat pid) s"
  shows "stop_stream py_int pid_file s
    = (if INT_MAX < pid then Inl (Py OverflowError, s)
       else if unwritable s pid_file then
         Inl (Py PermissionError,
              s\<lparr>procs := filter (\<lambda>p. \<not> (fst p = nat pid \<and> \<not> term_resistant (snd p)))
                           (procs s),
                trace := trace s @ [Kill pid SIGTERM, Print ''Stopped stream.'']\<rparr>)
       else
         Inr (s\<lparr>files := (files s)(pid_file := None),
                procs := filter (\<lambda>p. \<not> (fst p = nat pid \<and> \<not> term_resistant (snd p)))
                           (procs s),
                trace := trace s @ [Kill pid SIGTERM, Print ''Stopped stream.'']\<rparr>))"
proof (cases "INT_MAX < pid")
  case True
  with assms show ?thesis
    by (simp add: stop_stream_def os_kill_overflow)
next
  case False
  then have "pid \<le> INT_MAX" by simp
  with assms False show ?thesis
    by (simp add: stop_stream_def os_kill_running print_def log_def os_remove_def dies_def)
qed

lemma video_stream_stop_stream_running:
  assumes "distinct (map fst (procs s))" "map_of (procs s) child = Some pr"
    "child \<noteq> 0" "pgid pr \<noteq> 0" "pgid pr \<noteq> own_pgid s"
  shows "video_stream_stop_stream (Some child) s
    = Inr (s\<lparr>procs :=
               (if term_resistant pr then filter (\<lambda>p. pgid (snd p) \<noteq> pgid pr) (procs s)
                else filter (\<lambda>p. \<not> (pgid (snd p) = pgid pr \<and> \<not> term_resistant (snd p)))
                       (procs s)),
             trace := trace s @
               (if term_resistant pr
                then [Killpg (pgid pr) SIGTERM, Sleep 300, Killpg (pgid pr) SIGKILL]
                else [Killpg (pgid pr) SIGTERM, Sleep 300])\<rparr>)"
proof -
  from assms(2) have "running child s" by (rule map_of_running)
  then show ?thesis
    unfolding video_stream_stop_stream_def
    by (simp add: stop_group_running [OF assms])
qed

section \<open>The claim about the stop sequence\<close>

text \<open>
  C3, as the specification states it, does not hold of \<^verbatim>\<open>stop_stream\<close> in
  \<^verbatim>\<open>stream_control.py\<close>. In the state \<open>os_streaming\<close> the lock file names process
  4242, which leads a process group with a second member 4243 and outlives
  \<^verbatim>\<open>SIGTERM\<close>. The stop makes one call, \<^verbatim>\<open>os.kill(4242, SIGTERM)\<close>: no signal to the
  group, no grace period, no \<^verbatim>\<open>SIGKILL\<close>, and both processes are still there when it
  returns. The stop of the specification ends with both processes gone.
\<close>

theorem stop_stream_group_kill_counterexample:
  "stop_stream decimal_int DEFAULT_PID os_streaming
     = Inr \<lparr>files = Map.empty, unwritable = (\<lambda>path. False),
            procs = [(4242, \<lparr>pgid = 4242, term_resistant = True\<rparr>),
                     (4243, \<lparr>pgid = 4242, term_resistant = False\<rparr>)],
            others = [], own_pgid = 1000, next_pid = 4244,
            exe_present = True, child_term_resistant = True,
            trace = [Kill 4242 SIGTERM, Print ''Stopped stream.'']\<rparr> \<and>
   stop_spec decimal_int DEFAULT_PID os_streaming
     = Inr \<lparr>files = Map.empty, unwritable = (\<lambda>path. False), procs = [],
            others = [], own_pgid = 1000, next_pid = 4244,
            exe_present = True, child_term_resistant = True,
            trace = [Killpg 4242 SIGTERM, Sleep 300, Killpg 4242 SIGKILL,
                     Print ''Stopped stream.'']\<rparr>"
proof -
  have "stop_stream decimal_int DEFAULT_PID os_streaming
     = Inr \<lparr>files = Map.empty, unwritable = (\<lambda>path. False),
            procs = [(4242, \<lparr>pgid = 4242, term_resistant = True\<rparr>),
                     (4243, \<lparr>pgid = 4242, term_resistant = False\<rparr>)],
            others = [], own_pgid = 1000, next_pid = 4244,
            exe_present = True, child_term_resistant = True,
            trace = [Kill 4242 SIGTERM, Print ''Stopped stream.'']\<rparr>"
    by (simp add: stop_stream_def os_streaming_def DEFAULT_PID_def decimal_int_4242
        os_kill_def running_def log_def print_def deliver_def dies_def os_remove_def
        INT_MIN_def INT_MAX_def)
  moreover have "stop_spec decimal_int DEFAULT_PID os_streaming
     = Inr \<lparr>files = Map.empty, unwritable = (\<lambda>path. False), procs = [],
            others = [], own_pgid = 1000, next_pid = 4244,
            exe_present = True, child_term_resistant = True,
            trace = [Killpg 4242 SIGTERM, Sleep 300, Killpg 4242 SIGKILL,
                     Print ''Stopped stream.'']\<rparr>"
    by (simp add: stop_spec_def stop_group_def os_streaming_def DEFAULT_PID_def
        decimal_int_4242 os_getpgid_def os_killpg_def signal_group_def running_def log_def
        sleep_def print_def deliver_def dies_def os_remove_def)
  ultimately show ?thesis by (rule conjI)
qed

text \<open>
  C3, amended. When the lock file exists and names a running process, \<^verbatim>\<open>stop_stream\<close>
  of \<^verbatim>\<open>stream_control.py\<close> reads the recorded pid and sends \<^verbatim>\<open>SIGTERM\<close> to that single
  process, without grace period or escalation, and removes the lock file: the process
  is gone afterwards unless it outlives \<^verbatim>\<open>SIGTERM\<close>, and no other process is touched.
  (The statement also says how the call fails where it cannot do so: with
  \<^verbatim>\<open>OverflowError\<close> and nothing done for a pid beyond the range of a C \<^verbatim>\<open>int\<close>, with
  \<^verbatim>\<open>PermissionError\<close> after the signal when the lock file cannot be removed.)
  The signal to the whole process group, the grace period of 300 ms and the escalation
  to \<^verbatim>\<open>SIGKILL\<close> when the child is still alive are what \<^verbatim>\<open>stop_stream(proc)\<close> of
  \<^verbatim>\<open>video_stream.py\<close> does, on the handle of a running child that leads a process
  group other than the caller's (pids being unique in the process table).
\<close>

theorem stop_stream_signals_recorded_process:
  "(files s pid_file = Some text \<and> py_int text = Inr pid \<and> 0 < pid \<and> running (nat pid) s \<longrightarrow>
      stop_stream py_int pid_file s
        = (if INT_MAX < pid then Inl (Py OverflowError, s)
           else if unwritable s pid_file then
             Inl (Py PermissionError,
                  s\<lparr>procs := filter (\<lambda>p. \<not> (fst p = nat pid \<and> \<not> term_resistant (snd p)))
                               (procs s),
                    trace := trace s @ [Kill pid SIGTERM, Print ''Stopped stream.'']\<rparr>)
           else
             Inr (s\<lparr>files := (files s)(pid_file := None),
                    procs := filter (\<lambda>p. \<not> (fst p = nat pid \<and> \<not> term_resistant (snd p)))
                               (procs s),
                    trace := trace s @ [Kill pid SIGTERM, Print ''Stopped stream.'']\<rparr>))) \<and>
   (distinct (map fst (procs s)) \<and> map_of (procs s) child = Some pr \<and> child \<noteq> 0 \<and>
    pgid pr \<noteq> 0 \<and> pgid pr \<noteq> own_pgid s \<longrightarrow>
      video_stream_stop_stream (Some child) s
        = Inr (s\<lparr>procs :=
                   (if term_resistant pr
                    then filter (\<lambda>p. pgid (snd p) \<noteq> pgid pr) (procs s)
                    else filter (\<lambda>p. \<not> (pgid (snd p) = pgid pr \<and> \<not> term_resistant (snd p)))
                           (procs s)),
                 trace := trace s @
                   (if term_resistant pr
                    then [Killpg (pgid pr) SIGTERM, Sleep 300, Killpg (pgid pr) SIGKILL]
                    else [Killpg (pgid pr) SIGTERM, Sleep 300])\<rparr>))"
proof (intro conjI impI)
  assume "files s pid_file = Some text \<and> py_int text = Inr pid \<and> 0 < pid \<and> running (nat pid) s"
  then show "stop_stream py_int pid_file s
        = (if INT_MAX < pid then Inl (Py OverflowError, s)
           else if unwritable s pid_file then
             Inl (Py PermissionError,
                  s\<lparr>procs := filter (\<lambda>p. \<not> (fst p = nat pid \<and> \<not> term_resistant (snd p)))
                               (procs s),
                    trace := trace s @ [Kill pid SIGTERM, Print ''Stopped stream.'']\<rparr>)
           else
             Inr (s\<lparr>files := (files s)(pid_file := None),
                    procs := filter (\<lambda>p. \<not> (fst p = nat pid \<and> \<not> term_resistant (snd p)))
                               (procs s),
                    trace := trace s @ [Kill pid SIGTERM, Print ''Stopped stream.'']\<rparr>))"
    using stop_stream_running [of s pid_file "text" py_int pid] by blast
next
  assume "distinct (map fst (procs s)) \<and> map_of (procs s) child = Some pr \<and> child \<noteq> 0 \<and>
    pgid pr \<noteq> 0 \<and> pgid pr \<noteq> own_pgid s"
  then show "video_stream_stop_stream (Some child) s
        = Inr (s\<lparr>procs :=
                   (if term_resistant pr
                    then filter (\<lambda>p. pgid (snd p) \<noteq> pgid pr) (procs s)
                    else filter (\<lambda>p. \<not> (pgid (snd p) = pgid pr \<and> \<not> term_resistant (snd p)))
                           (procs s)),
                 trace := trace s @
                   (if term_resistant pr
                    then [Killpg (pgid pr) SIGTERM, Sleep 300, Killpg (pgid pr) SIGKILL]
                    else [Killpg (pgid pr) SIGTERM, Sleep 300])\<rparr>)"
    using video_stream_stop_stream_running [of s child pr] by blast
qed

theorem stop_stream_signals_recorded_process_witness:
  "files os_streaming DEFAULT_PID = Some ''4242'' \<and> running 4242 os_streaming \<and>
   distinct (map fst (procs os_streaming)) \<and>
   map_of (procs os_streaming) 4242 = Some \<lparr>pgid = 4242, term_resistant = True\<rparr> \<and>
   stop_stream decimal_int DEFAULT_PID os_streaming
     = Inr (os_streaming\<lparr>files := Map.empty,
              trace := [Kill 4242 SIGTERM, Print ''Stopped stream.'']\<rparr>) \<and>
   video_stream_stop_stream (Some 4242) os_streaming
     = Inr (os_streaming\<lparr>procs := [],
              trace := [Killpg 4242 SIGTERM, Sleep 300, Killpg 4242 SIGKILL]\<rparr>)"
proof -
  have f: "files os_streaming DEFAULT_PID = Some ''4242''"
    by (simp add: os_streaming_def DEFAULT_PID_def)
  have r: "running (nat 4242) os_streaming"
    by (simp add: os_streaming_def running_def)
  have d: "distinct (map fst (procs os_streaming))"
    by (simp add: os_streaming_def)
  have m: "map_of (procs os_streaming) 4242 = Some \<lparr>pgid = 4242, term_resistant = True\<rparr>"
    by (simp add: os_streaming_def)
  have o: "pgid \<lparr>pgid = 4242, term_resistant = True\<rparr> \<noteq> own_pgid os_streaming"
    by (simp add: os_streaming_def)
  have i: "\<not> INT_MAX < 4242"
    by (simp add: INT_MAX_def)
  have u: "\<not> unwritable os_streaming DEFAULT_PID"
    by (simp add: os_streaming_def)
  from stop_stream_signals_recorded_process
    [of os_streaming DEFAULT_PID "''4242''" decimal_int 4242 4242
      "\<lparr>pgid = 4242, term_resistant = True\<rparr>"]
    f r d m o i u decimal_int_4242
  show ?thesis by (simp add: os_streaming_def DEFAULT_PID_def)
qed

section \<open>The orchestration loop and the teardown of the stream\<close>

text \<open>
  When the loop has ended and neither \<^verbatim>\<open>cap.release()\<close> nor
  \<^verbatim>\<open>cv2.destroyAllWindows()\<close> raises, the \<^verbatim>\<open>finally\<close> block leaves the state that
  \<^verbatim>\<open>stop_stream\<close> makes.
\<close>

lemma finally_block_stops:
  assumes "release env = Returns ()" "destroy_windows env = Returns ()"
  shows "snd (finally_block py_int env ended s)
    = (case stop_stream py_int DEFAULT_PID s of Inl (err, s') \<Rightarrow> s' | Inr s' \<Rightarrow> s')"
  using assms
  by (simp add: finally_block_def split: sum.splits prod.splits loop_end.splits)

lemma start_stream_os_idle:
  "start_stream DEFAULT_URL DEFAULT_W DEFAULT_H DEFAULT_FPS DEFAULT_QUALITY DEFAULT_PID
     (print ''Tesseract: 5.3.0'' os_idle)
   = Inr (os_started\<lparr>trace := Print ''Tesseract: 5.3.0'' # trace os_started\<rparr>)"
  by (simp add: start_stream_def os_path_exists_def popen_def print_def log_def
      write_file_def Let_def os_idle_def os_started_def str_nat.simps DEFAULT_URL_def
      DEFAULT_W_def DEFAULT_H_def DEFAULT_FPS_def DEFAULT_QUALITY_def DEFAULT_PID_def)

text \<open>The exit by the key \<^verbatim>\<open>q\<close> does reach \<^verbatim>\<open>stop_stream\<close>.\<close>

lemma main_quit_stops_stream:
  "main (\<lambda>c. [c]) decimal_int env_quit os_idle
   = (Returned,
      os_started\<lparr>files := Map.empty,
        trace := Print ''Tesseract: 5.3.0'' # trace os_started @
          [Sleep 700, Print ''Press 'q' to quit, 's' to save.'',
           Kill 4242 SIGTERM, Print ''Stopped stream.'']\<rparr>)"
  by (simp add: main_def start_stream_os_idle env_quit_def
        frame_step_def stable_def OCR_EVERY_def finally_block_def Let_def)
     (simp add: stop_stream_def os_started_def DEFAULT_PID_def decimal_int_4242 sleep_def
        os_kill_def running_def log_def print_def deliver_def dies_def os_remove_def
        INT_MIN_def INT_MAX_def)

text \<open>
  C9 asks that \<^verbatim>\<open>stop\<close> is invoked on every exit path, so that the child is never
  left running. Two exits of \<^verbatim>\<open>main\<close> do not invoke it. In \<open>env_interrupted\<close> a
  \<^verbatim>\<open>SIGINT\<close> arrives while \<^verbatim>\<open>open_capture\<close> runs, after \<^verbatim>\<open>start_stream()\<close> and before
  the \<^verbatim>\<open>try\<close>: \<^verbatim>\<open>main\<close> ends with \<^verbatim>\<open>KeyboardInterrupt\<close>. In \<open>env_headless\<close> the loop
  ends with an OpenCV error and \<^verbatim>\<open>cv2.destroyAllWindows()\<close> raises in the \<^verbatim>\<open>finally\<close>
  block, before \<^verbatim>\<open>stop_stream()\<close>. Both times no signal has been sent, the child 4242
  is running and the pid file is still there.
\<close>

theorem main_exits_without_stop:
  "main (\<lambda>c. [c]) decimal_int env_interrupted os_idle
     = (Uncaught (Py KeyboardInterrupt),
        os_started\<lparr>trace := Print ''Tesseract: 5.3.0'' # trace os_started @ [Sleep 700]\<rparr>) \<and>
   main (\<lambda>c. [c]) decimal_int env_headless os_idle
     = (Uncaught (Py CvError),
        os_started\<lparr>trace := Print ''Tesseract: 5.3.0'' # trace os_started @
          [Sleep 700, Print ''Press 'q' to quit, 's' to save.'']\<rparr>) \<and>
   running 4242 os_started \<and> files os_started DEFAULT_PID = Some ''4242''"
proof -
  have "main (\<lambda>c. [c]) decimal_int env_interrupted os_idle
     = (Uncaught (Py KeyboardInterrupt),
        os_started\<lparr>trace := Print ''Tesseract: 5.3.0'' # trace os_started @ [Sleep 700]\<rparr>)"
    by (simp add: main_def start_stream_os_idle env_interrupted_def)
      (simp add: sleep_def log_def)
  moreover have "main (\<lambda>c. [c]) decimal_int env_headless os_idle
     = (Uncaught (Py CvError),
        os_started\<lparr>trace := Print ''Tesseract: 5.3.0'' # trace os_started @
          [Sleep 700, Print ''Press 'q' to quit, 's' to save.'']\<rparr>)"
    by (simp add: main_def start_stream_os_idle env_headless_def finally_block_def)
      (simp add: sleep_def print_def log_def)
  moreover have "running 4242 os_started \<and> files os_started DEFAULT_PID = Some ''4242''"
    by (simp add: running_def os_started_def DEFAULT_PID_def)
  ultimately show ?thesis by blast
qed

end
